theory Spec2Isabelle
  imports Complex_Main
begin

section \<open>JavaScript numbers\<close>

text \<open>
  The solver computes on JavaScript numbers. A number is modelled as a finite real or
  one of the three special values of IEEE 754. Arithmetic on finite values is exact:
  rounding, overflow to infinity and the sign of zero are not modelled. The special
  values follow IEEE 754, so a division by zero, a sine of infinity and every operation
  on NaN give what JavaScript gives. A zero divisor is read as +0: the only divisor of
  the program is the difference \<open>1 - e * Math.cos(E)\<close>, and a difference of two equal
  numbers is +0.

  On these numbers are proved the statements that the rounding of binary64 does not
  decide: computations on 0, 1, \<open>1/2\<close> and NaN, which are exact; runs in which the loop
  body is not reached; the lower bound of the divisor; and counterexamples whose margin is
  far above any rounding. What the solver does with arbitrary arguments is proved for an
  arbitrary arithmetic instead, of which binary64 with its rounding is one.
\<close>

datatype jsnum = Fin real | PInf | NInf | NaN

fun js_neg :: "jsnum \<Rightarrow> jsnum" where
  "js_neg (Fin x) = Fin (- x)"
| "js_neg PInf = NInf"
| "js_neg NInf = PInf"
| "js_neg NaN = NaN"

fun js_add :: "jsnum \<Rightarrow> jsnum \<Rightarrow> jsnum" where
  "js_add (Fin x) (Fin y) = Fin (x + y)"
| "js_add (Fin x) PInf = PInf"
| "js_add (Fin x) NInf = NInf"
| "js_add PInf (Fin y) = PInf"
| "js_add PInf PInf = PInf"
| "js_add PInf NInf = NaN"
| "js_add NInf (Fin y) = NInf"
| "js_add NInf PInf = NaN"
| "js_add NInf NInf = NInf"
| "js_add NaN b = NaN"
| "js_add a NaN = NaN"

definition js_sub :: "jsnum \<Rightarrow> jsnum \<Rightarrow> jsnum" where
  "js_sub a b = js_add a (js_neg b)"

text \<open>The sign of a product or quotient with an infinite operand.\<close>

definition js_signed_inf :: "bool \<Rightarrow> jsnum" where
  "js_signed_inf positive = (if positive then PInf else NInf)"

fun js_mul :: "jsnum \<Rightarrow> jsnum \<Rightarrow> jsnum" where
  "js_mul (Fin x) (Fin y) = Fin (x * y)"
| "js_mul (Fin x) PInf = (if x = 0 then NaN else js_signed_inf (0 < x))"
| "js_mul (Fin x) NInf = (if x = 0 then NaN else js_signed_inf (x < 0))"
| "js_mul PInf (Fin y) = (if y = 0 then NaN else js_signed_inf (0 < y))"
| "js_mul NInf (Fin y) = (if y = 0 then NaN else js_signed_inf (y < 0))"
| "js_mul PInf PInf = PInf"
| "js_mul PInf NInf = NInf"
| "js_mul NInf PInf = NInf"
| "js_mul NInf NInf = PInf"
| "js_mul NaN b = NaN"
| "js_mul a NaN = NaN"

fun js_div :: "jsnum \<Rightarrow> jsnum \<Rightarrow> jsnum" where
  "js_div (Fin x) (Fin y) =
     (if y \<noteq> 0 then Fin (x / y)
      else if x = 0 then NaN
      else js_signed_inf (0 < x))"
| "js_div (Fin x) PInf = Fin 0"
| "js_div (Fin x) NInf = Fin 0"
| "js_div PInf (Fin y) = js_signed_inf (0 \<le> y)"
| "js_div NInf (Fin y) = js_signed_inf (y < 0)"
| "js_div PInf PInf = NaN"
| "js_div PInf NInf = NaN"
| "js_div NInf PInf = NaN"
| "js_div NInf NInf = NaN"
| "js_div NaN b = NaN"
| "js_div a NaN = NaN"

text \<open>\<open>Math.sin\<close> and \<open>Math.cos\<close>: NaN at an infinite or NaN argument.\<close>

fun js_sin :: "jsnum \<Rightarrow> jsnum" where
  "js_sin (Fin x) = Fin (sin x)"
| "js_sin PInf = NaN"
| "js_sin NInf = NaN"
| "js_sin NaN = NaN"

fun js_cos :: "jsnum \<Rightarrow> jsnum" where
  "js_cos (Fin x) = Fin (cos x)"
| "js_cos PInf = NaN"
| "js_cos NInf = NaN"
| "js_cos NaN = NaN"



section \<open>The solver\<close>

text \<open>
  The source:
  \<^verbatim>\<open>
  export const keplersLaw = (M: number, e: number, iterations = 6) => {
    let E = M;
    for (let i = 0; i < iterations; i++) {
      E = E - (E - e * Math.sin(E) - M) / (1 - e * Math.cos(E));
    }
    return E;
  };
  \<close>
  The divisor of the assignment and the assignment itself get a name each, so that the
  claims can speak about them.
\<close>

definition keplersLaw_divisor :: "jsnum \<Rightarrow> jsnum \<Rightarrow> jsnum" where
  "keplersLaw_divisor e E = js_sub (Fin 1) (js_mul e (js_cos E))"

definition keplersLaw_body :: "jsnum \<Rightarrow> jsnum \<Rightarrow> jsnum \<Rightarrow> jsnum" where
  "keplersLaw_body M e E =
     js_sub E (js_div (js_sub (js_sub E (js_mul e (js_sin E))) M) (keplersLaw_divisor e E))"

text \<open>
  The \<open>for\<close> loop, with the counter \<open>i\<close> and the variable \<open>E\<close> as arguments. The
  iteration count is an integer, as the contract of the solver has it; it may be zero or
  negative.
\<close>

function keplersLaw_loop :: "jsnum \<Rightarrow> jsnum \<Rightarrow> int \<Rightarrow> int \<Rightarrow> jsnum \<Rightarrow> jsnum" where
  "keplersLaw_loop M e iterations i E =
     (if i < iterations
      then keplersLaw_loop M e iterations (i + 1) (keplersLaw_body M e E)
      else E)"
  by pat_completeness auto
termination
  by (relation "measure (\<lambda>(M, e, iterations, i, E). nat (iterations - i))") auto

declare keplersLaw_loop.simps [simp del]

text \<open>An omitted third argument (\<open>None\<close>) takes the default of the parameter list, 6.\<close>

definition keplersLaw :: "jsnum \<Rightarrow> jsnum \<Rightarrow> int option \<Rightarrow> jsnum" where
  "keplersLaw M e iterations =
     keplersLaw_loop M e (case iterations of None \<Rightarrow> 6 | Some n \<Rightarrow> n) 0 M"

text \<open>
  The same loop, recording every value the variable \<open>E\<close> holds: the initial one and the
  one after each assignment.
\<close>

function keplersLaw_iterates :: "jsnum \<Rightarrow> jsnum \<Rightarrow> int \<Rightarrow> int \<Rightarrow> jsnum \<Rightarrow> jsnum list" where
  "keplersLaw_iterates M e iterations i E =
     (if i < iterations
      then E # keplersLaw_iterates M e iterations (i + 1) (keplersLaw_body M e E)
      else [E])"
  by pat_completeness auto
termination
  by (relation "measure (\<lambda>(M, e, iterations, i, E). nat (iterations - i))") auto

declare keplersLaw_iterates.simps [simp del]

text \<open>
  How a call ends. The errors are the two of the specification's taxonomy. The source
  has no \<open>throw\<close>, and arithmetic on numbers, \<open>Math.sin\<close> and \<open>Math.cos\<close> do not throw,
  so a call ends by returning the value of \<open>E\<close>.
\<close>

datatype error = DomainError | InvalidInput

datatype 'a outcome = Returns 'a | Throws error

definition keplersLaw_call :: "jsnum \<Rightarrow> jsnum \<Rightarrow> int option \<Rightarrow> jsnum outcome" where
  "keplersLaw_call M e iterations = Returns (keplersLaw M e iterations)"


section \<open>The solver in an arbitrary arithmetic\<close>

text \<open>
  The source fixes the expression of the update and the loop around it, not the
  arithmetic: subtraction, multiplication and division are those of the JavaScript
  engine, rounded to binary64, and the results of \<open>Math.sin\<close> and \<open>Math.cos\<close> are left
  to the implementation. Here the operations are a parameter: a value of any type, the
  literal \<open>1\<close> and the five operations the update uses. The functions below are the
  source again, with every operation taken from that parameter.
\<close>

record 'a arith =
  num_one :: 'a
  num_sub :: "'a \<Rightarrow> 'a \<Rightarrow> 'a"
  num_mul :: "'a \<Rightarrow> 'a \<Rightarrow> 'a"
  num_div :: "'a \<Rightarrow> 'a \<Rightarrow> 'a"
  num_sin :: "'a \<Rightarrow> 'a"
  num_cos :: "'a \<Rightarrow> 'a"

definition keplersLaw_divisor_on :: "'a arith \<Rightarrow> 'a \<Rightarrow> 'a \<Rightarrow> 'a" where
  "keplersLaw_divisor_on A e E = num_sub A (num_one A) (num_mul A e (num_cos A E))"

definition keplersLaw_body_on :: "'a arith \<Rightarrow> 'a \<Rightarrow> 'a \<Rightarrow> 'a \<Rightarrow> 'a" where
  "keplersLaw_body_on A M e E =
     num_sub A E
       (num_div A (num_sub A (num_sub A E (num_mul A e (num_sin A E))) M)
          (keplersLaw_divisor_on A e E))"

function keplersLaw_loop_on :: "'a arith \<Rightarrow> 'a \<Rightarrow> 'a \<Rightarrow> int \<Rightarrow> int \<Rightarrow> 'a \<Rightarrow> 'a" where
  "keplersLaw_loop_on A M e iterations i E =
     (if i < iterations
      then keplersLaw_loop_on A M e iterations (i + 1) (keplersLaw_body_on A M e E)
      else E)"
  by pat_completeness auto
termination
  by (relation "measure (\<lambda>(A, M, e, iterations, i, E). nat (iterations - i))") auto

declare keplersLaw_loop_on.simps [simp del]

definition keplersLaw_on :: "'a arith \<Rightarrow> 'a \<Rightarrow> 'a \<Rightarrow> int option \<Rightarrow> 'a" where
  "keplersLaw_on A M e iterations =
     keplersLaw_loop_on A M e (case iterations of None \<Rightarrow> 6 | Some n \<Rightarrow> n) 0 M"

function keplersLaw_iterates_on :: "'a arith \<Rightarrow> 'a \<Rightarrow> 'a \<Rightarrow> int \<Rightarrow> int \<Rightarrow> 'a \<Rightarrow> 'a list" where
  "keplersLaw_iterates_on A M e iterations i E =
     (if i < iterations
      then E # keplersLaw_iterates_on A M e iterations (i + 1) (keplersLaw_body_on A M e E)
      else [E])"
  by pat_completeness auto
termination
  by (relation "measure (\<lambda>(A, M, e, iterations, i, E). nat (iterations - i))") auto

declare keplersLaw_iterates_on.simps [simp del]

definition keplersLaw_call_on :: "'a arith \<Rightarrow> 'a \<Rightarrow> 'a \<Rightarrow> int option \<Rightarrow> 'a outcome" where
  "keplersLaw_call_on A M e iterations = Returns (keplersLaw_on A M e iterations)"

text \<open>The idealised numbers of the first section are one such arithmetic.\<close>

definition js_arith :: "jsnum arith" where
  "js_arith = \<lparr>num_one = Fin 1, num_sub = js_sub, num_mul = js_mul, num_div = js_div,
     num_sin = js_sin, num_cos = js_cos\<rparr>"


section \<open>The Newton-Raphson sequence of the specification\<close>

text \<open>
  The sequence as the specification writes it: \<open>E\<^sub>0 = M\<close> and
  \<open>E\<^sub>k\<^sub>+\<^sub>1 = E\<^sub>k - (E\<^sub>k - e sin E\<^sub>k - M) / (1 - e cos E\<^sub>k)\<close>, every operation being that
  of the arithmetic at hand.
\<close>

fun newton_raphson_on :: "'a arith \<Rightarrow> 'a \<Rightarrow> 'a \<Rightarrow> nat \<Rightarrow> 'a" where
  "newton_raphson_on A M e 0 = M"
| "newton_raphson_on A M e (Suc k) =
     (let E = newton_raphson_on A M e k
      in num_sub A E
           (num_div A (num_sub A (num_sub A E (num_mul A e (num_sin A E))) M)
              (num_sub A (num_one A) (num_mul A e (num_cos A E)))))"


section \<open>The sequence in exact arithmetic\<close>

text \<open>
  The update on the reals, without rounding, for the eccentricities below 1, where the
  divisor is not zero, and its iterates from \<open>E\<^sub>0 = M\<close>. The residual of Kepler's
  equation at \<open>E\<close> is \<open>E - e sin E - M\<close>.
\<close>

definition newton_step :: "real \<Rightarrow> real \<Rightarrow> real \<Rightarrow> real" where
  "newton_step M e E = E - (E - e * sin E - M) / (1 - e * cos E)"

fun newton_iter :: "real \<Rightarrow> real \<Rightarrow> nat \<Rightarrow> real" where
  "newton_iter M e 0 = M"
| "newton_iter M e (Suc k) = newton_step M e (newton_iter M e k)"

definition residual :: "real \<Rightarrow> real \<Rightarrow> real \<Rightarrow> real" where
  "residual M e E = E - e * sin E - M"

text \<open>
  The first iterate on the reals, with the difference \<open>M - e sin M - M\<close> of the numerator
  worked out.
\<close>

definition first_iterate :: "real \<Rightarrow> real \<Rightarrow> real" where
  "first_iterate e x = x + e * sin x / (1 - e * cos x)"


section \<open>The loop as an iterated function\<close>

lemma keplersLaw_loop_funpow:
  "keplersLaw_loop M e iterations i E = (keplersLaw_body M e ^^ nat (iterations - i)) E"
proof (induction M e iterations i E rule: keplersLaw_loop.induct)
  case (1 M e iterations i E)
  show ?case
  proof (cases "i < iterations")
    case True
    then have "nat (iterations - i) = Suc (nat (iterations - (i + 1)))"
      by simp
    with True 1 show ?thesis
      by (simp add: keplersLaw_loop.simps [of M e iterations i E] funpow_swap1)
  next
    case False
    then show ?thesis
      by (simp add: keplersLaw_loop.simps [of M e iterations i E])
  qed
qed

lemma keplersLaw_funpow:
  "keplersLaw M e (Some n) = (keplersLaw_body M e ^^ nat n) M"
  by (simp add: keplersLaw_def keplersLaw_loop_funpow)


lemma keplersLaw_iterates_funpow:
  "keplersLaw_iterates M e iterations i E =
     map (\<lambda>k. (keplersLaw_body M e ^^ k) E) [0..<Suc (nat (iterations - i))]"
proof (induction M e iterations i E rule: keplersLaw_iterates.induct)
  case (1 M e iterations i E)
  show ?case
  proof (cases "i < iterations")
    case True
    let ?m = "nat (iterations - (i + 1))"
    from True have m: "nat (iterations - i) = Suc ?m"
      by simp
    have "map (\<lambda>k. (keplersLaw_body M e ^^ k) E) [0..<Suc (Suc ?m)] =
          E # map (\<lambda>k. (keplersLaw_body M e ^^ k) (keplersLaw_body M e E)) [0..<Suc ?m]"
      by (simp only: upt_conv_Cons [of 0 "Suc (Suc ?m)"] map_Suc_upt [symmetric])
         (simp add: funpow_swap1 del: upt_Suc)
    with True 1 m show ?thesis
      by (simp add: keplersLaw_iterates.simps [of M e iterations i E] del: upt_Suc)
  next
    case False
    then show ?thesis
      by (simp add: keplersLaw_iterates.simps [of M e iterations i E])
  qed
qed

text \<open>The recorded values end with the value the loop returns.\<close>

lemma keplersLaw_iterates_last:
  "last (keplersLaw_iterates M e iterations i E) = keplersLaw_loop M e iterations i E"
  by (simp add: keplersLaw_iterates_funpow keplersLaw_loop_funpow)

lemma funpow_fixed: "f x = x \<Longrightarrow> (f ^^ k) x = x"
  by (induction k) simp_all



section \<open>One pass of the loop body\<close>

lemma keplersLaw_divisor_Fin: "keplersLaw_divisor (Fin e) (Fin x) = Fin (1 - e * cos x)"
  by (simp add: keplersLaw_divisor_def js_sub_def)

lemma keplersLaw_body_Fin:
  "keplersLaw_body (Fin M) (Fin e) (Fin x) =
     (if 1 - e * cos x \<noteq> 0 then Fin (x - (x - e * sin x - M) / (1 - e * cos x))
      else if x - e * sin x - M = 0 then NaN
      else js_signed_inf (x - e * sin x - M < 0))"
  by (simp add: keplersLaw_body_def keplersLaw_divisor_def js_sub_def js_signed_inf_def)

text \<open>From an infinite or NaN value of \<open>E\<close> the body gives NaN, whatever \<open>M\<close> and \<open>e\<close>.\<close>

lemma keplersLaw_body_nonfinite: "\<forall>x. E \<noteq> Fin x \<Longrightarrow> keplersLaw_body M e E = NaN"
  by (cases E; cases e; cases M)
     (simp_all add: keplersLaw_body_def keplersLaw_divisor_def js_sub_def)

lemma keplersLaw_NaN: "keplersLaw NaN e iterations = NaN"
proof -
  have "keplersLaw_body NaN e NaN = NaN"
    by (simp add: keplersLaw_body_nonfinite)
  then have "(keplersLaw_body NaN e ^^ k) NaN = NaN" for k
    by (rule funpow_fixed)
  then show ?thesis
    by (simp add: keplersLaw_def keplersLaw_loop_funpow)
qed

lemma divisor_lower_bound:
  fixes e x :: real
  assumes "0 \<le> e" "e < 1"
  shows "1 - e \<le> 1 - e * cos x" and "0 < 1 - e * cos x"
proof -
  have "e * cos x \<le> e * 1"
    by (rule mult_left_mono) (simp_all add: assms)
  then show "1 - e \<le> 1 - e * cos x" by simp
  with assms show "0 < 1 - e * cos x" by simp
qed




section \<open>The solver and the Newton-Raphson sequence\<close>

lemma keplersLaw_loop_on_funpow:
  "keplersLaw_loop_on A M e iterations i E = (keplersLaw_body_on A M e ^^ nat (iterations - i)) E"
proof (induction A M e iterations i E rule: keplersLaw_loop_on.induct)
  case (1 A M e iterations i E)
  show ?case
  proof (cases "i < iterations")
    case True
    then have "nat (iterations - i) = Suc (nat (iterations - (i + 1)))"
      by simp
    with True 1 show ?thesis
      by (simp add: keplersLaw_loop_on.simps [of A M e iterations i E] funpow_swap1)
  next
    case False
    then show ?thesis
      by (simp add: keplersLaw_loop_on.simps [of A M e iterations i E])
  qed
qed

lemma keplersLaw_on_funpow:
  "keplersLaw_on A M e iterations =
     (keplersLaw_body_on A M e ^^ nat (case iterations of None \<Rightarrow> 6 | Some n \<Rightarrow> n)) M"
  by (simp add: keplersLaw_on_def keplersLaw_loop_on_funpow)

lemma keplersLaw_iterates_on_funpow:
  "keplersLaw_iterates_on A M e iterations i E =
     map (\<lambda>k. (keplersLaw_body_on A M e ^^ k) E) [0..<Suc (nat (iterations - i))]"
proof (induction A M e iterations i E rule: keplersLaw_iterates_on.induct)
  case (1 A M e iterations i E)
  show ?case
  proof (cases "i < iterations")
    case True
    let ?m = "nat (iterations - (i + 1))"
    from True have m: "nat (iterations - i) = Suc ?m"
      by simp
    have "map (\<lambda>k. (keplersLaw_body_on A M e ^^ k) E) [0..<Suc (Suc ?m)] =
          E # map (\<lambda>k. (keplersLaw_body_on A M e ^^ k) (keplersLaw_body_on A M e E)) [0..<Suc ?m]"
      by (simp only: upt_conv_Cons [of 0 "Suc (Suc ?m)"] map_Suc_upt [symmetric])
         (simp add: funpow_swap1 del: upt_Suc)
    with True 1 m show ?thesis
      by (simp add: keplersLaw_iterates_on.simps [of A M e iterations i E] del: upt_Suc)
  next
    case False
    then show ?thesis
      by (simp add: keplersLaw_iterates_on.simps [of A M e iterations i E])
  qed
qed

lemma funpow_newton_raphson_on:
  "(keplersLaw_body_on A M e ^^ k) M = newton_raphson_on A M e k"
  by (induction k) (simp_all add: keplersLaw_body_on_def keplersLaw_divisor_on_def Let_def)

lemma keplersLaw_body_on_js: "keplersLaw_body_on js_arith = keplersLaw_body"
  by (intro ext) (simp add: keplersLaw_body_on_def keplersLaw_divisor_on_def keplersLaw_body_def
      keplersLaw_divisor_def js_arith_def)

lemma keplersLaw_on_js: "keplersLaw_on js_arith M e iterations = keplersLaw M e iterations"
  by (simp add: keplersLaw_on_funpow keplersLaw_body_on_js keplersLaw_def keplersLaw_loop_funpow)

lemma keplersLaw_call_on_js:
  "keplersLaw_call_on js_arith M e iterations = keplersLaw_call M e iterations"
  by (simp add: keplersLaw_call_on_def keplersLaw_call_def keplersLaw_on_js)

text \<open>
  C1. For every \<open>M\<close> and \<open>e\<close> and every iteration count \<open>n \<ge> 1\<close> the solver computes the
  Newton-Raphson sequence of the specification, in whatever arithmetic it runs: it starts
  from \<open>E\<^sub>0 = M\<close>, applies the update
  \<open>E\<^sub>k\<^sub>+\<^sub>1 = E\<^sub>k - (E\<^sub>k - e sin E\<^sub>k - M) / (1 - e cos E\<^sub>k)\<close> exactly \<open>n\<close> times (the variable \<open>E\<close>
  holds \<open>n + 1\<close> values in turn, the last one being returned) and returns \<open>E\<^sub>n\<close>. With the
  iteration count omitted it returns \<open>E\<^sub>6\<close>; the loop has no other exit than the counter.
  The terms \<open>E\<^sub>k\<close> are those of the arithmetic of the solver: where it rounds, they are
  the rounded ones.
\<close>

theorem keplersLaw_computes_newton_raphson:
  assumes "1 \<le> n"
  shows "keplersLaw_on A M e (Some n) = newton_raphson_on A M e (nat n) \<and>
    length (keplersLaw_iterates_on A M e n 0 M) = nat n + 1 \<and>
    last (keplersLaw_iterates_on A M e n 0 M) = keplersLaw_on A M e (Some n) \<and>
    keplersLaw_on A M e None = newton_raphson_on A M e 6"
proof (intro conjI)
  show "keplersLaw_on A M e (Some n) = newton_raphson_on A M e (nat n)"
    by (simp add: keplersLaw_on_funpow funpow_newton_raphson_on)
  show "length (keplersLaw_iterates_on A M e n 0 M) = nat n + 1"
    by (simp add: keplersLaw_iterates_on_funpow del: upt_Suc)
  show "last (keplersLaw_iterates_on A M e n 0 M) = keplersLaw_on A M e (Some n)"
    by (simp add: keplersLaw_iterates_on_funpow keplersLaw_on_funpow)
  show "keplersLaw_on A M e None = newton_raphson_on A M e 6"
    by (simp add: keplersLaw_on_funpow funpow_newton_raphson_on)
qed

theorem keplersLaw_computes_newton_raphson_witness:
  "(1::int) \<le> 2 \<and>
   keplersLaw_on js_arith (Fin 0) (Fin (1 / 2)) (Some 2) = Fin 0 \<and>
   newton_raphson_on js_arith (Fin 0) (Fin (1 / 2)) (nat 2) = Fin 0 \<and>
   length (keplersLaw_iterates_on js_arith (Fin 0) (Fin (1 / 2)) 2 0 (Fin 0)) = 3"
proof -
  have "newton_raphson_on js_arith (Fin 0) (Fin (1 / 2)) (Suc (Suc 0)) = Fin 0"
    by (simp add: js_arith_def js_sub_def)
  then show ?thesis
    using keplersLaw_computes_newton_raphson [of 2 js_arith "Fin 0" "Fin (1 / 2)"]
    by (simp add: numeral_2_eq_2)
qed


section \<open>Rejection of invalid input\<close>

lemma keplersLaw_parabolic: "keplersLaw (Fin 0) (Fin 1) None = NaN"
proof -
  have "keplersLaw_body (Fin 0) (Fin 1) (Fin 0) = NaN"
    by (simp add: keplersLaw_body_Fin)
  moreover have "(keplersLaw_body (Fin 0) (Fin 1) ^^ 5) NaN = NaN"
    by (rule funpow_fixed) (simp add: keplersLaw_body_nonfinite)
  ultimately have "(keplersLaw_body (Fin 0) (Fin 1) ^^ Suc 5) (Fin 0) = NaN"
    by (simp only: funpow_Suc_right o_apply)
  then show ?thesis
    by (simp add: keplersLaw_def keplersLaw_loop_funpow)
qed

lemma keplersLaw_negative_e:
  "keplersLaw (Fin (pi / 2)) (Fin (- (1 / 10))) (Some 1) = Fin (pi / 2 - 1 / 10)"
  by (simp add: keplersLaw_funpow keplersLaw_body_Fin)

text \<open>
  C3, as the specification states it: an eccentricity outside \<open>[0, 1)\<close> raises DomainError
  and a non-finite \<open>M\<close> raises InvalidInput. The solver does neither: with \<open>e = 1\<close> and
  \<open>M = 0\<close> the default call returns NaN, with \<open>e = -0.1\<close> and \<open>M = \<pi>/2\<close> one iteration
  returns \<open>\<pi>/2 - 0.1\<close>, and with \<open>M\<close> NaN the call returns NaN.
\<close>

theorem boundary_rejection_counterexample:
  "keplersLaw_call (Fin 0) (Fin 1) None = Returns NaN \<and>
   keplersLaw_call (Fin 0) (Fin 1) None \<noteq> Throws DomainError \<and>
   keplersLaw_call (Fin (pi / 2)) (Fin (- (1 / 10))) (Some 1) = Returns (Fin (pi / 2 - 1 / 10)) \<and>
   keplersLaw_call (Fin (pi / 2)) (Fin (- (1 / 10))) (Some 1) \<noteq> Throws DomainError \<and>
   keplersLaw_call NaN (Fin (1 / 2)) None = Returns NaN \<and>
   keplersLaw_call NaN (Fin (1 / 2)) None \<noteq> Throws InvalidInput"
  by (simp add: keplersLaw_call_def keplersLaw_parabolic keplersLaw_negative_e keplersLaw_NaN)

lemma keplersLaw_parabolic_passes:
  "keplersLaw (Fin 0) (Fin 1) (Some (1 + int k)) = NaN"
proof -
  have "keplersLaw_body (Fin 0) (Fin 1) (Fin 0) = NaN"
    by (simp add: keplersLaw_body_Fin)
  moreover have "(keplersLaw_body (Fin 0) (Fin 1) ^^ k) NaN = NaN"
    by (rule funpow_fixed) (simp add: keplersLaw_body_nonfinite)
  ultimately have "(keplersLaw_body (Fin 0) (Fin 1) ^^ Suc k) (Fin 0) = NaN"
    by (simp only: funpow_Suc_right o_apply)
  moreover have "nat (1 + int k) = Suc k"
    by simp
  ultimately show ?thesis
    by (simp only: keplersLaw_funpow)
qed

text \<open>
  C3, amended: for every \<open>M\<close>, every \<open>e\<close> and every iteration count \<open>n\<close>, given or omitted
  (then \<open>n = 6\<close>), and in whatever arithmetic the solver runs, a call raises no error: it
  returns the term \<open>E\<^sub>m\<close>, \<open>m = max n 0\<close>, of the Newton-Raphson sequence computed from \<open>M\<close>
  and \<open>e\<close> as they were passed, without validation and without clamping. In
  particular, on JavaScript numbers: with \<open>M\<close> NaN it returns NaN for every \<open>e\<close> and every
  iteration count; with \<open>e = 1\<close> and \<open>M = 0\<close> it returns NaN for every iteration count
  \<open>n \<ge> 1\<close> and for the omitted one.
\<close>

theorem call_returns_unvalidated_iterate:
  "keplersLaw_call_on A M e iterations =
     Returns (newton_raphson_on A M e (nat (case iterations of None \<Rightarrow> 6 | Some n \<Rightarrow> n))) \<and>
   keplersLaw_call NaN e' iterations = Returns NaN \<and>
   keplersLaw_call (Fin 0) (Fin 1) (Some (1 + int k)) = Returns NaN \<and>
   keplersLaw_call (Fin 0) (Fin 1) None = Returns NaN"
  by (simp add: keplersLaw_call_on_def keplersLaw_on_funpow funpow_newton_raphson_on
      keplersLaw_call_def keplersLaw_NaN keplersLaw_parabolic_passes keplersLaw_parabolic)


section \<open>Fixed points of the loop body\<close>

lemma keplersLaw_body_circular: "keplersLaw_body (Fin M) (Fin 0) (Fin M) = Fin M"
  by (simp add: keplersLaw_body_Fin)

lemma keplersLaw_body_origin: "keplersLaw_body (Fin 0) (Fin (1 / 2)) (Fin 0) = Fin 0"
  by (simp add: keplersLaw_body_Fin)

text \<open>
  C4. With eccentricity 0 the solver returns \<open>M\<close> itself, for every real \<open>M\<close> and every
  iteration count \<open>n \<ge> 1\<close>.
\<close>

theorem circular_orbit_identity:
  "1 \<le> n \<Longrightarrow> keplersLaw (Fin M) (Fin 0) (Some n) = Fin M"
  by (simp add: keplersLaw_funpow funpow_fixed keplersLaw_body_circular)

theorem circular_orbit_identity_witness:
  "(1::int) \<le> 6 \<and> keplersLaw (Fin 2) (Fin 0) (Some 6) = Fin 2"
  using circular_orbit_identity [of 6 2] by simp


section \<open>The divisor\<close>




section \<open>The origin\<close>

text \<open>
  C6. With \<open>M = 0\<close> and \<open>e = 0.5\<close> the solver returns 0 for every iteration count
  \<open>n \<ge> 1\<close>: 0 is a fixed point of the update.
\<close>

theorem origin_fixed_point:
  "1 \<le> n \<Longrightarrow> keplersLaw (Fin 0) (Fin (1 / 2)) (Some n) = Fin 0"
  by (simp add: keplersLaw_funpow funpow_fixed keplersLaw_body_origin)

theorem origin_fixed_point_witness:
  "(1::int) \<le> 3 \<and> keplersLaw (Fin 0) (Fin (1 / 2)) (Some 3) = Fin 0"
  using origin_fixed_point [of 3] by simp


section \<open>The residual of Kepler's equation in exact arithmetic\<close>

text \<open>
  The lemmas of this section and of the next are about the sequence on the reals, without
  rounding; they say nothing about rounded results.

  A Newton step from \<open>E\<close> with increment \<open>h\<close> leaves the residual
  \<open>- e (sin (E + h) - sin E - h cos E)\<close>, which is at most \<open>e h\<^sup>2 / 2\<close> in absolute value.
\<close>

lemma cos_lipschitz: "\<bar>cos a - cos b\<bar> \<le> \<bar>a - b\<bar>" for a b :: real
proof -
  have "\<bar>cos a - cos b\<bar> = 2 * \<bar>sin ((a + b) / 2)\<bar> * \<bar>sin ((b - a) / 2)\<bar>"
    by (simp add: cos_diff_cos abs_mult)
  also have "\<dots> \<le> 2 * 1 * \<bar>(b - a) / 2\<bar>"
    by (intro mult_mono abs_sin_x_le_abs_x) simp_all
  also have "\<dots> = \<bar>a - b\<bar>"
    by simp
  finally show ?thesis .
qed

lemma sin_second_order_nonneg:
  fixes x h :: real
  assumes "0 \<le> h"
  shows "\<bar>sin (x + h) - sin x - h * cos x\<bar> \<le> h\<^sup>2 / 2"
proof -
  let ?u = "\<lambda>t. t\<^sup>2 / 2 - (sin (x + t) - sin x - t * cos x)"
  let ?v = "\<lambda>t. t\<^sup>2 / 2 + (sin (x + t) - sin x - t * cos x)"
  have du: "\<exists>y. DERIV ?u t :> y \<and> 0 \<le> y" if "0 \<le> t" "t \<le> h" for t
  proof -
    have "DERIV ?u t :> t - (cos (x + t) - cos x)"
      by (auto intro!: derivative_eq_intros)
    moreover have "0 \<le> t - (cos (x + t) - cos x)"
      using cos_lipschitz [of "x + t" x] that by simp
    ultimately show ?thesis by blast
  qed
  have dv: "\<exists>y. DERIV ?v t :> y \<and> 0 \<le> y" if "0 \<le> t" "t \<le> h" for t
  proof -
    have "DERIV ?v t :> t + (cos (x + t) - cos x)"
      by (auto intro!: derivative_eq_intros)
    moreover have "0 \<le> t + (cos (x + t) - cos x)"
      using cos_lipschitz [of "x + t" x] that by simp
    ultimately show ?thesis by blast
  qed
  have "?u 0 \<le> ?u h"
    using assms du by (rule DERIV_nonneg_imp_nondecreasing)
  then have u: "0 \<le> h\<^sup>2 / 2 - (sin (x + h) - sin x - h * cos x)"
    by simp
  have "?v 0 \<le> ?v h"
    using assms dv by (rule DERIV_nonneg_imp_nondecreasing)
  then have v: "0 \<le> h\<^sup>2 / 2 + (sin (x + h) - sin x - h * cos x)"
    by simp
  from u v show ?thesis by linarith
qed

lemma sin_second_order:
  fixes x h :: real
  shows "\<bar>sin (x + h) - sin x - h * cos x\<bar> \<le> h\<^sup>2 / 2"
proof (cases "0 \<le> h")
  case True
  then show ?thesis by (rule sin_second_order_nonneg)
next
  case False
  then have "0 \<le> - h" by simp
  then have "\<bar>sin (- x + - h) - sin (- x) - (- h) * cos (- x)\<bar> \<le> (- h)\<^sup>2 / 2"
    by (rule sin_second_order_nonneg)
  moreover have "sin (- x + - h) = - sin (x + h)"
    using sin_minus [of "x + h"] by simp
  ultimately have "\<bar>- sin (x + h) + sin x + h * cos x\<bar> \<le> h\<^sup>2 / 2"
    by simp
  then show ?thesis by linarith
qed

lemma residual_newton_step:
  assumes "1 - e * cos E \<noteq> 0" and h: "h = - (residual M e E / (1 - e * cos E))"
  shows "newton_step M e E = E + h"
    and "residual M e (E + h) = - e * (sin (E + h) - sin E - h * cos E)"
proof -
  show "newton_step M e E = E + h"
    by (simp add: newton_step_def h residual_def)
  have "h * (1 - e * cos E) = - residual M e E"
    using assms(1) by (simp add: h)
  then have "E - M = e * sin E - h + h * e * cos E"
    by (simp add: residual_def algebra_simps)
  then show "residual M e (E + h) = - e * (sin (E + h) - sin E - h * cos E)"
    by (simp add: residual_def algebra_simps)
qed

lemma residual_step_quadratic:
  assumes e: "0 \<le> e" "e < 1"
  shows "\<bar>residual M e (newton_step M e E)\<bar> \<le> e / 2 * (residual M e E / (1 - e * cos E))\<^sup>2"
proof -
  define h where "h = - (residual M e E / (1 - e * cos E))"
  have nz: "1 - e * cos E \<noteq> 0"
    using divisor_lower_bound(2) [OF e, of E] by simp
  have "\<bar>residual M e (E + h)\<bar> = e * \<bar>sin (E + h) - sin E - h * cos E\<bar>"
    using e(1) by (simp add: residual_newton_step(2) [OF nz h_def] abs_mult)
  also have "\<dots> \<le> e * (h\<^sup>2 / 2)"
    using e(1) by (intro mult_left_mono sin_second_order)
  also have "\<dots> = e / 2 * (residual M e E / (1 - e * cos E))\<^sup>2"
    by (simp add: h_def)
  finally show ?thesis
    by (simp add: residual_newton_step(1) [OF nz h_def])
qed

lemma residual_step_square:
  assumes e: "0 \<le> e" "e \<le> 1 / 2" and r: "\<bar>residual M e E\<bar> \<le> r"
  shows "\<bar>residual M e (newton_step M e E)\<bar> \<le> r\<^sup>2"
proof -
  define d where "d = 1 - e * cos E"
  define f where "f = residual M e E"
  have e1: "e < 1" using e by simp
  have "1 - e \<le> d" "0 < d"
    unfolding d_def using e(1) e1 by (rule divisor_lower_bound)+
  then have d_lo: "1 / 2 \<le> d" and d_pos: "0 < d"
    using e(2) by simp_all
  have r0: "0 \<le> r"
    using r abs_ge_zero [of "residual M e E"] by linarith
  define t where "t = f / d"
  have "\<bar>t\<bar> = \<bar>f\<bar> / d"
    using d_pos by (simp add: t_def)
  also have "\<dots> \<le> r / (1 / 2)"
    using r r0 d_lo unfolding f_def by (intro frac_le) simp_all
  finally have t: "\<bar>t\<bar> \<le> 2 * r"
    by simp
  have "\<bar>t\<bar>\<^sup>2 \<le> (2 * r)\<^sup>2"
    by (rule power_mono [OF t]) simp
  then have "t\<^sup>2 \<le> 4 * r\<^sup>2"
    by (simp add: power_mult_distrib)
  then have sq: "(f / d)\<^sup>2 \<le> 4 * r\<^sup>2"
    by (simp only: t_def)
  have "\<bar>residual M e (newton_step M e E)\<bar> \<le> e / 2 * (f / d)\<^sup>2"
    unfolding f_def d_def using e(1) e1 by (rule residual_step_quadratic)
  also have "\<dots> \<le> (1 / 4) * (4 * r\<^sup>2)"
    using e sq by (intro mult_mono) simp_all
  finally show ?thesis
    by simp
qed

lemma residual_newton_iter_power:
  assumes e: "0 \<le> e" "e \<le> 1 / 2"
  shows "\<bar>residual M e (newton_iter M e k)\<bar> \<le> (1 / 2) ^ (2 ^ k)"
proof (induction k)
  case 0
  have "\<bar>residual M e M\<bar> = e * \<bar>sin M\<bar>"
    using e(1) by (simp add: residual_def abs_mult)
  also have "\<dots> \<le> (1 / 2) * 1"
    using e by (intro mult_mono) simp_all
  finally show ?case by simp
next
  case (Suc k)
  have "\<bar>residual M e (newton_iter M e (Suc k))\<bar> \<le> ((1 / 2) ^ (2 ^ k))\<^sup>2"
    using residual_step_square [OF e Suc.IH] by simp
  also have "\<dots> = (1 / 2) ^ (2 ^ Suc k)"
    by (simp add: power_mult [symmetric] mult.commute)
  finally show ?case .
qed

text \<open>
  For \<open>0 \<le> e \<le> 1/2\<close> the residual is squared by every step; from the fifth term on it
  is below one millionth, for every real \<open>M\<close>.
\<close>

lemma residual_newton_iter_small:
  assumes e: "0 \<le> e" "e \<le> 1 / 2" and k: "5 \<le> k"
  shows "\<bar>residual M e (newton_iter M e k)\<bar> < 1 / 10 ^ 6"
proof -
  have p: "(2::nat) ^ 5 \<le> 2 ^ k"
    by (rule power_increasing [OF k]) simp
  have "(1 / 2 :: real) ^ (2 ^ k) \<le> (1 / 2) ^ (2 ^ 5)"
    by (rule power_decreasing [OF p]) simp_all
  also have "\<dots> < 1 / 10 ^ 6"
    by (simp add: power_one_over)
  finally show ?thesis
    using residual_newton_iter_power [OF e, of M k] by linarith
qed

section \<open>Monotonicity of the sequence in exact arithmetic\<close>

subsection \<open>The first term\<close>

lemma small_eccentricity:
  fixes e :: real
  assumes "0 \<le> e" "e\<^sup>2 \<le> 3 / 4"
  shows "e < 1"
proof (rule ccontr)
  assume "\<not> e < 1"
  then have le: "1 \<le> e" by simp
  have "1\<^sup>2 \<le> e\<^sup>2" by (rule power_mono) (simp_all add: le)
  with assms show False by simp
qed

lemma nonneg_of_nonneg_product:
  fixes y p :: real
  assumes "0 \<le> y * p" "0 < p"
  shows "0 \<le> y"
  using assms by (auto simp add: zero_le_mult_iff)

text \<open>
  The derivative of the first iterate is
  \<open>((e cos x - 1/2)\<^sup>2 + 3/4 - e\<^sup>2) / (1 - e cos x)\<^sup>2\<close>.
\<close>

lemma first_iterate_deriv:
  assumes "0 \<le> e" "e\<^sup>2 \<le> 3 / 4"
  shows "\<exists>y. DERIV (first_iterate e) x :> y \<and> 0 \<le> y"
proof -
  have e1: "e < 1" using assms by (rule small_eccentricity)
  have d: "0 < 1 - e * cos x" using assms(1) e1 by (rule divisor_lower_bound)
  let ?d = "1 - e * cos x"
  let ?y = "1 + (e * cos x * ?d - e * sin x * (e * sin x)) / (?d * ?d)"
  have der: "DERIV (first_iterate e) x :> ?y"
    unfolding first_iterate_def
    using d by (auto intro!: derivative_eq_intros)
  have sc: "sin x * sin x = 1 - cos x * cos x"
    using sin_cos_squared_add [of x] by (simp add: power2_eq_square)
  have "e * sin x * (e * sin x) = e * e * (sin x * sin x)"
    by simp
  also have "\<dots> = e * e * (1 - cos x * cos x)"
    by (simp only: sc)
  finally have num: "e * cos x * ?d - e * sin x * (e * sin x) =
      e * cos x * ?d - e * e * (1 - cos x * cos x)"
    by simp
  have "?y * (?d * ?d) = ?d * ?d + (e * cos x * ?d - e * sin x * (e * sin x))"
    using d by (simp add: distrib_right)
  also have "\<dots> = ?d * ?d + (e * cos x * ?d - e * e * (1 - cos x * cos x))"
    by (simp only: num)
  also have "\<dots> = (e * cos x - 1 / 2)\<^sup>2 + (3 / 4 - e\<^sup>2)"
    by (simp add: power2_eq_square algebra_simps)
  finally have prod: "?y * (?d * ?d) = (e * cos x - 1 / 2)\<^sup>2 + (3 / 4 - e\<^sup>2)" .
  have "0 \<le> (e * cos x - 1 / 2)\<^sup>2 + (3 / 4 - e\<^sup>2)"
    using assms(2) by (intro add_nonneg_nonneg) simp_all
  then have "0 \<le> ?y * (?d * ?d)"
    by (simp only: prod)
  moreover have "0 < ?d * ?d"
    using d by simp
  ultimately have "0 \<le> ?y"
    by (rule nonneg_of_nonneg_product)
  with der show ?thesis by blast
qed

lemma first_iterate_mono:
  assumes "0 \<le> e" "e\<^sup>2 \<le> 3 / 4" "M1 \<le> M2"
  shows "first_iterate e M1 \<le> first_iterate e M2"
  using assms(3) first_iterate_deriv [OF assms(1,2)]
  by (rule DERIV_nonneg_imp_nondecreasing)

subsection \<open>Every term\<close>

text \<open>
  For \<open>0 \<le> e \<le> 1/3\<close> the residual at every iterate is at most \<open>1/3\<close>, and the derivative
  of every iterate with respect to \<open>M\<close> lies between 0 and 2.
\<close>

lemma residual_newton_iter:
  assumes e: "0 \<le> e" "e \<le> 1 / 3"
  shows "\<bar>residual M e (newton_iter M e k)\<bar> \<le> 1 / 3"
proof (induction k)
  case 0
  have "\<bar>residual M e M\<bar> = e * \<bar>sin M\<bar>"
    using e(1) by (simp add: residual_def abs_mult)
  also have "\<dots> \<le> (1 / 3) * 1"
    using e by (intro mult_mono) simp_all
  finally show ?case by simp
next
  case (Suc k)
  have "e \<le> 1 / 2" using e(2) by simp
  then have "\<bar>residual M e (newton_iter M e (Suc k))\<bar> \<le> (1 / 3)\<^sup>2"
    using residual_step_square [OF e(1) _ Suc.IH] by simp
  also have "\<dots> \<le> 1 / 3"
    by (simp add: power2_eq_square)
  finally show ?case .
qed

lemma newton_step_deriv_algebra:
  fixes d :: real
  assumes "d \<noteq> 0"
  shows "D - ((D * d - 1) * d - f * (s * D)) / (d * d) = 1 / d + f * s / (d * d) * D"
  using assms by (simp add: field_simps)

lemma newton_step_deriv:
  assumes dg: "DERIV g M :> D" and nz: "1 - e * cos (g M) \<noteq> 0"
  shows "DERIV (\<lambda>M. newton_step M e (g M)) M :>
    1 / (1 - e * cos (g M)) +
    residual M e (g M) * (e * sin (g M)) / ((1 - e * cos (g M)) * (1 - e * cos (g M))) * D"
proof -
  let ?d = "1 - e * cos (g M)"
  have num: "DERIV (\<lambda>M. g M - e * sin (g M) - M) M :> D - e * (cos (g M) * D) - 1"
    by (rule DERIV_diff [OF DERIV_diff [OF dg DERIV_cmult [OF DERIV_fun_sin [OF dg]]] DERIV_ident])
  have den: "DERIV (\<lambda>M. 1 - e * cos (g M)) M :> 0 - e * (- sin (g M) * D)"
    by (rule DERIV_diff [OF DERIV_const DERIV_cmult [OF DERIV_fun_cos [OF dg]]])
  have "DERIV (\<lambda>M. g M - (g M - e * sin (g M) - M) / (1 - e * cos (g M))) M :>
      D - ((D - e * (cos (g M) * D) - 1) * ?d - (g M - e * sin (g M) - M) * (0 - e * (- sin (g M) * D)))
          / (?d * ?d)"
    by (rule DERIV_diff [OF dg DERIV_divide [OF num den nz]])
  moreover have "D - e * (cos (g M) * D) - 1 = D * ?d - 1"
    by (simp add: algebra_simps)
  moreover have "0 - e * (- sin (g M) * D) = e * sin (g M) * D"
    by simp
  ultimately have "DERIV (\<lambda>M. g M - (g M - e * sin (g M) - M) / (1 - e * cos (g M))) M :>
      D - ((D * ?d - 1) * ?d - residual M e (g M) * (e * sin (g M) * D)) / (?d * ?d)"
    by (simp only: residual_def)
  then show ?thesis
    unfolding newton_step_def
    by (simp only: newton_step_deriv_algebra [OF nz])
qed

lemma newton_gain_bound:
  fixes e f s d :: real
  assumes "0 \<le> e" "e \<le> 1 / 3" "\<bar>f\<bar> \<le> 1 / 3" "\<bar>s\<bar> \<le> 1" "2 / 3 \<le> d"
  shows "\<bar>f * (e * s) / (d * d)\<bar> \<le> 1 / 4"
proof -
  have "\<bar>f\<bar> * (e * \<bar>s\<bar>) \<le> (1 / 3) * ((1 / 3) * 1)"
    using assms by (intro mult_mono) simp_all
  then have n: "\<bar>f * (e * s)\<bar> \<le> 1 / 9"
    using assms(1) by (simp add: abs_mult)
  have "(2 / 3) * (2 / 3) \<le> d * d"
    using assms(5) by (intro mult_mono) simp_all
  then have dd: "4 / 9 \<le> d * d"
    by simp
  have "\<bar>f * (e * s) / (d * d)\<bar> = \<bar>f * (e * s)\<bar> / (d * d)"
    using dd by simp
  also have "\<dots> \<le> (1 / 9) / (4 / 9)"
    using n dd by (intro frac_le) simp_all
  finally show ?thesis by simp
qed

lemma newton_iter_deriv:
  assumes e: "0 \<le> e" "e \<le> 1 / 3"
  shows "\<exists>D. DERIV (\<lambda>M. newton_iter M e k) M :> D \<and> 0 \<le> D \<and> D \<le> 2"
proof (induction k arbitrary: M)
  case 0
  have "DERIV (\<lambda>M. newton_iter M e 0) M :> 1"
    by simp
  then show ?case
    by (intro exI [of _ 1]) simp
next
  case (Suc k)
  from Suc.IH [of M] obtain D
    where dg: "DERIV (\<lambda>M. newton_iter M e k) M :> D" and D: "0 \<le> D" "D \<le> 2"
    by blast
  let ?E = "newton_iter M e k"
  define d where "d = 1 - e * cos ?E"
  define q where "q = residual M e ?E * (e * sin ?E) / (d * d)"
  have e1: "e < 1" using e by simp
  have "1 - e \<le> d" "0 < d"
    unfolding d_def using e(1) e1 by (rule divisor_lower_bound)+
  then have d_lo: "2 / 3 \<le> d" and nz: "d \<noteq> 0"
    using e(2) by simp_all
  have "- (e * cos ?E) \<le> e * 1"
    using e(1) mult_left_mono [of "- cos ?E" 1 e] by simp
  then have d_hi: "d \<le> 4 / 3"
    unfolding d_def using e(2) by simp
  have "\<bar>q\<bar> \<le> 1 / 4"
    unfolding q_def
    using e residual_newton_iter [OF e] _ d_lo by (rule newton_gain_bound) simp
  then have "\<bar>q\<bar> * \<bar>D\<bar> \<le> (1 / 4) * 2"
    using D by (intro mult_mono) simp_all
  then have "\<bar>q * D\<bar> \<le> 1 / 2"
    by (simp add: abs_mult)
  then have qD: "- (1 / 2) \<le> q * D" "q * D \<le> 1 / 2"
    by linarith+
  have "1 / d \<le> 1 / (2 / 3)"
    using d_lo by (intro divide_left_mono) simp_all
  then have inv_hi: "1 / d \<le> 3 / 2"
    by simp
  have "1 / (4 / 3) \<le> 1 / d"
    using d_hi d_lo by (intro divide_left_mono) simp_all
  then have inv_lo: "3 / 4 \<le> 1 / d"
    by simp
  have "DERIV (\<lambda>M. newton_iter M e (Suc k)) M :> 1 / d + q * D"
    using newton_step_deriv [OF dg] nz by (simp add: d_def q_def)
  moreover have "0 \<le> 1 / d + q * D"
    using inv_lo qD(1) by linarith
  moreover have "1 / d + q * D \<le> 2"
    using inv_hi qD(2) by linarith
  ultimately show ?case by blast
qed

lemma newton_iter_mono:
  assumes "0 \<le> e" "e \<le> 1 / 3" "M1 \<le> M2"
  shows "newton_iter M1 e k \<le> newton_iter M2 e k"
proof -
  have "\<exists>D. DERIV (\<lambda>M. newton_iter M e k) M :> D \<and> 0 \<le> D" for M
    using newton_iter_deriv [OF assms(1,2), of k M] by blast
  with assms(3) show ?thesis
    by (rule DERIV_nonneg_imp_nondecreasing [where f = "\<lambda>M. newton_iter M e k"])
qed


section \<open>Monotonicity of the result in the mean anomaly\<close>








section \<open>No validation, and no iteration\<close>

text \<open>
  C9. The solver validates nothing and raises nothing: for every \<open>M\<close> and every \<open>e\<close>,
  finite or not, in \<open>[0, 1)\<close> or not, for every iteration count \<open>n\<close>, given or omitted
  (then \<open>n = 6\<close>), and in whatever arithmetic it runs, a call runs its loop on \<open>M\<close> and \<open>e\<close>
  as they were passed and returns the value so computed: the loop body is applied
  \<open>max n 0\<close> times from \<open>E = M\<close>, the variable \<open>E\<close> holding one value more than there are
  passes. On JavaScript numbers, with \<open>e = 1\<close> and \<open>M = 0\<close> the divisor of the first pass is
  exactly 0; the variable \<open>E\<close> holds 0 and then NaN, and NaN is returned for every
  iteration count \<open>n \<ge> 1\<close>.
\<close>

theorem no_validation_runs_loop:
  "keplersLaw_call_on A M e iterations =
     Returns ((keplersLaw_body_on A M e ^^ nat (case iterations of None \<Rightarrow> 6 | Some n \<Rightarrow> n)) M) \<and>
   length (keplersLaw_iterates_on A M e n 0 M) = nat n + 1 \<and>
   keplersLaw_call_on A M e (Some n) = Returns (last (keplersLaw_iterates_on A M e n 0 M)) \<and>
   keplersLaw_divisor (Fin 1) (Fin 0) = Fin 0 \<and>
   keplersLaw_iterates (Fin 0) (Fin 1) 1 0 (Fin 0) = [Fin 0, NaN] \<and>
   keplersLaw_call (Fin 0) (Fin 1) (Some (1 + int k)) = Returns NaN"
proof (intro conjI)
  show "keplersLaw_call_on A M e iterations =
     Returns ((keplersLaw_body_on A M e ^^ nat (case iterations of None \<Rightarrow> 6 | Some n \<Rightarrow> n)) M)"
    by (simp add: keplersLaw_call_on_def keplersLaw_on_funpow)
  show "length (keplersLaw_iterates_on A M e n 0 M) = nat n + 1"
    by (simp add: keplersLaw_iterates_on_funpow del: upt_Suc)
  show "keplersLaw_call_on A M e (Some n) = Returns (last (keplersLaw_iterates_on A M e n 0 M))"
    by (simp add: keplersLaw_call_on_def keplersLaw_on_funpow keplersLaw_iterates_on_funpow)
  show "keplersLaw_divisor (Fin 1) (Fin 0) = Fin 0"
    by (simp add: keplersLaw_divisor_Fin)
  show "keplersLaw_iterates (Fin 0) (Fin 1) 1 0 (Fin 0) = [Fin 0, NaN]"
    by (simp add: keplersLaw_iterates_funpow keplersLaw_body_Fin)
  show "keplersLaw_call (Fin 0) (Fin 1) (Some (1 + int k)) = Returns NaN"
    by (simp only: keplersLaw_call_def keplersLaw_parabolic_passes)
qed

text \<open>
  C10. With an iteration count of 0 or below the loop body does not run, and the solver
  returns \<open>M\<close> as it is, for every \<open>M\<close> and \<open>e\<close>.
\<close>

theorem no_iterations_returns_M:
  "n \<le> 0 \<Longrightarrow> keplersLaw M e (Some n) = M"
  by (simp add: keplersLaw_def keplersLaw_loop.simps [of M e n 0 M])

theorem no_iterations_returns_M_witness:
  "(- 2 :: int) \<le> 0 \<and> keplersLaw (Fin 1) (Fin (1 / 2)) (Some (- 2)) = Fin 1 \<and>
   (0::int) \<le> 0 \<and> keplersLaw NaN PInf (Some 0) = NaN"
  using no_iterations_returns_M [of "- 2" "Fin 1" "Fin (1 / 2)"]
    no_iterations_returns_M [of 0 NaN PInf]
  by simp

end
